theory Spec2Isabelle
  imports Main "HOL-Library.AList"
begin

section \<open>Channel data, exceptions and the per-item hook\<close>

text \<open>
  A channel carries real items and then the completion marker \<open>END\<close>
  (\<open>aiosaber.channel.END\<close>), a sentinel distinct from every payload.
\<close>

datatype 'a data = Item 'a | END

text \<open>The exceptions the operators of \<open>operators.py\<close> raise, catch or let pass.\<close>

datatype exc =
    TypeError | KeyError | IndexError | ValueError | AssertionError | RuntimeError
  | CancelledError | InvalidStateError | UserError nat

text \<open>
  An operator that overrides \<open>handle_stream\<close> dispatches every datum through
  \<open>self.handler(self, async_getter(data), self.put)\<close>, the per-item hook wrapped by the item
  interceptors. Such a stage takes the handler as a parameter \<open>handler\<close>: one activation
  maps the datum to the list of its puts.
\<close>

type_synonym 'a handler = "'a data \<Rightarrow> 'a data list"

text \<open>
  Modelled from the spec: \<open>BaseTask.handle\<close> (in \<open>task.py\<close>, not part of the sources at
  hand), the per-item hook that \<open>self.handler\<close> reaches when no item interceptor is
  configured ("absence of configured interceptors is the identity behavior"). An operator
  that overrides only \<open>handle_stream\<close> inherits it; it awaits the datum and puts it unchanged
  on the output.
\<close>

definition BaseTask_handle :: "'a handler" where
  "BaseTask_handle d = [d]"

section \<open>Concat\<close>

text \<open>
  \<^verbatim>\<open>
  async def handle_stream(self, consumer, **kwargs):
      for q in consumer.queues:
          async for data in q:
              await self.handler(self, async_getter(data), self.put)
      await self.handler(self, async_getter(END), self.put)
  \<close>
  A queue is the finite list of the real items its iteration yields. The inner loop is
  \<open>Concat_queue\<close>, the outer one \<open>Concat_queues\<close>.
\<close>

fun Concat_queue :: "'a handler \<Rightarrow> 'a list \<Rightarrow> 'a data list" where
  "Concat_queue handler [] = []"
| "Concat_queue handler (d # q) = handler (Item d) @ Concat_queue handler q"

fun Concat_queues :: "'a handler \<Rightarrow> 'a list list \<Rightarrow> 'a data list" where
  "Concat_queues handler [] = []"
| "Concat_queues handler (q # qs) = Concat_queue handler q @ Concat_queues handler qs"

definition Concat_handle_stream :: "'a handler \<Rightarrow> 'a list list \<Rightarrow> 'a data list" where
  "Concat_handle_stream handler queues = Concat_queues handler queues @ handler END"

section \<open>Sample\<close>

text \<open>
  \<^verbatim>\<open>
  def __init__(self, num: int = 1, **kwargs):
      assert num >= 1, "Sample size must be at lest 1"
      super().__init__(**kwargs)
      self.num = num
      self.reservoir = []
  \<close>
\<close>

record 'a Sample_state =
  num :: int
  reservoir :: "'a list"

definition Sample_init :: "int \<Rightarrow> exc + 'a Sample_state" where
  "Sample_init n = (if n \<ge> 1 then Inr \<lparr>num = n, reservoir = []\<rparr> else Inl AssertionError)"

text \<open>
  \<^verbatim>\<open>
  cur = 0
  async for data in consumer:
      if cur < self.num:
          self.reservoir.append(data)
      else:
          i = random.randint(0, cur)
          if i < self.num:
              self.reservoir[i] = data
      cur += 1
  \<close>
  The draws are an input: \<open>randint cur\<close> is what \<open>random.randint(0, cur)\<close> returns at
  position \<open>cur\<close> (a non-negative integer). An assignment to a reservoir slot that does
  not exist raises IndexError in Python, so the loop returns a sum.
\<close>

fun Sample_loop ::
  "int \<Rightarrow> (nat \<Rightarrow> nat) \<Rightarrow> nat \<Rightarrow> 'a list \<Rightarrow> 'a list \<Rightarrow> exc + (nat \<times> 'a list)" where
  "Sample_loop n randint cur res [] = Inr (cur, res)"
| "Sample_loop n randint cur res (d # ds) =
     (if int cur < n then Sample_loop n randint (cur + 1) (res @ [d]) ds
      else (let i = randint cur in
        if int i < n then
          (if i < length res then Sample_loop n randint (cur + 1) (res[i := d]) ds
           else Inl IndexError)
        else Sample_loop n randint (cur + 1) res ds))"

text \<open>
  \<^verbatim>\<open>
  for data in self.reservoir[0:cur]:
      await self.handler(self, async_getter(data), self.put)
  await self.handler(self, async_getter(END), self.put)
  \<close>
\<close>

fun Sample_emit :: "'a handler \<Rightarrow> 'a list \<Rightarrow> 'a data list" where
  "Sample_emit handler [] = []"
| "Sample_emit handler (d # ds) = handler (Item d) @ Sample_emit handler ds"

definition Sample_handle_stream ::
  "'a handler \<Rightarrow> 'a Sample_state \<Rightarrow> (nat \<Rightarrow> nat) \<Rightarrow> 'a list
     \<Rightarrow> exc + ('a Sample_state \<times> 'a data list)" where
  "Sample_handle_stream handler st randint ds =
     (case Sample_loop (num st) randint 0 (reservoir st) ds of
        Inl e \<Rightarrow> Inl e
      | Inr (cur, res) \<Rightarrow>
          Inr (st\<lparr>reservoir := res\<rparr>, Sample_emit handler (take cur res) @ handler END))"

text \<open>
  The algorithm in the spec's words, to compare with the loop: item \<open>i\<close> is stored directly
  while \<open>i < k\<close>; for \<open>i \<ge> k\<close> the draw \<open>r\<close> replaces reservoir slot \<open>r\<close> iff \<open>r < k\<close>.
\<close>

definition reservoir_step :: "nat \<Rightarrow> (nat \<Rightarrow> nat) \<Rightarrow> 'a list \<Rightarrow> nat \<times> 'a \<Rightarrow> 'a list" where
  "reservoir_step k randint res p =
     (case p of (i, d) \<Rightarrow>
        if i < k then res @ [d]
        else if randint i < k then res[randint i := d] else res)"

definition reservoir_spec :: "nat \<Rightarrow> (nat \<Rightarrow> nat) \<Rightarrow> 'a list \<Rightarrow> 'a list" where
  "reservoir_spec k randint ds = foldl (reservoir_step k randint) [] (List.enumerate 0 ds)"

section \<open>Filter and Distinct\<close>

text \<open>
  \<open>Filter.by\<close> is a predicate or an object to compare with. A callable may be a bound
  method of the stage (as in Distinct), so it reads and updates the stage's state.
\<close>

datatype ('s, 'a) filter_by = Callable "'s \<Rightarrow> 'a \<Rightarrow> bool \<times> 's" | Object 'a

text \<open>
  \<^verbatim>\<open>
  async def handle_stream(self, consumer, **kwargs):
      async for data in consumer:
          keep = self.by(data) if callable(self.by) else data == self.by
          if keep:
              await self.handler(self, async_getter(data), self.put)
      await self.handler(self, async_getter(END), self.put)
  \<close>
\<close>

fun Filter_loop ::
  "'a handler \<Rightarrow> ('s, 'a) filter_by \<Rightarrow> 's \<Rightarrow> 'a list \<Rightarrow> 's \<times> 'a data list" where
  "Filter_loop handler b st [] = (st, [])"
| "Filter_loop handler b st (d # ds) =
     (case (case b of Callable f \<Rightarrow> f st d | Object v \<Rightarrow> (d = v, st)) of
        (keep, st1) \<Rightarrow>
          (case Filter_loop handler b st1 ds of
             (st2, out) \<Rightarrow> (st2, (if keep then handler (Item d) else []) @ out)))"

definition Filter_handle_stream ::
  "'a handler \<Rightarrow> ('s, 'a) filter_by \<Rightarrow> 's \<Rightarrow> 'a list \<Rightarrow> 's \<times> 'a data list" where
  "Filter_handle_stream handler b st ds =
     (case Filter_loop handler b st ds of (st1, out) \<Rightarrow> (st1, out @ handler END))"

text \<open>
  \<^verbatim>\<open>
  class Distinct(Filter):
      def __init__(self, **kwargs):
          super().__init__(**kwargs)
          self.by = self.filter
          self.prev = object()

      def filter(self, data):
          if data == self.prev:
              return False
          self.prev = data
          return True
  \<close>
  \<open>prev\<close> starts as a fresh \<open>object()\<close>, equal to no item: \<open>None\<close> here. Python's \<open>==\<close> on
  items is HOL equality of the item type.
\<close>

record 'a Distinct_state =
  prev :: "'a option"

definition Distinct_init :: "'a Distinct_state" where
  "Distinct_init = \<lparr>prev = None\<rparr>"

definition Distinct_filter :: "'a Distinct_state \<Rightarrow> 'a \<Rightarrow> bool \<times> 'a Distinct_state" where
  "Distinct_filter st d =
     (if Some d = prev st then (False, st) else (True, st\<lparr>prev := Some d\<rparr>))"

definition Distinct_handle_stream ::
  "'a handler \<Rightarrow> 'a list \<Rightarrow> 'a Distinct_state \<times> 'a data list" where
  "Distinct_handle_stream handler ds =
     Filter_handle_stream handler (Callable Distinct_filter) Distinct_init ds"

text \<open>
  The spec's words, to compare with the code: every input item is paired with the item
  immediately before it (none for the first), and is forwarded iff the two differ.
\<close>

definition Distinct_spec :: "'a list \<Rightarrow> 'a list" where
  "Distinct_spec xs =
     map snd (filter (\<lambda>p. fst p \<noteq> Some (snd p)) (zip (None # map Some xs) xs))"

section \<open>The per-item loop of the task runtime\<close>

text \<open>
  Modelled from the spec: the default \<open>handle_stream\<close> of \<open>BaseTask\<close> (in \<open>task.py\<close>, not part
  of the sources at hand), which "repeatedly awaits one item and dispatches to
  \<open>handle(get, put)\<close> until END"; END itself is dispatched to \<open>handle\<close> too (every \<open>handle\<close> of
  \<open>operators.py\<close> tests \<open>data is END\<close>). One activation of \<open>handle\<close> takes the stage's state and
  one datum and returns the new state with its puts, or the exception it raises; an
  exception aborts the stage.
\<close>

fun run_handle ::
  "('s \<Rightarrow> 'a data \<Rightarrow> exc + ('s \<times> 'o list)) \<Rightarrow> 's \<Rightarrow> 'a data list \<Rightarrow> exc + ('s \<times> 'o list)" where
  "run_handle h st [] = Inr (st, [])"
| "run_handle h st (d # ds) =
     (case h st d of
        Inl e \<Rightarrow> Inl e
      | Inr (st1, out1) \<Rightarrow>
          (case run_handle h st1 ds of
             Inl e \<Rightarrow> Inl e
           | Inr (st2, out2) \<Rightarrow> Inr (st2, out1 @ out2)))"

definition BaseTask_handle_stream ::
  "('s \<Rightarrow> 'a data \<Rightarrow> exc + ('s \<times> 'o list)) \<Rightarrow> 's \<Rightarrow> 'a list \<Rightarrow> exc + ('s \<times> 'o list)" where
  "BaseTask_handle_stream h st xs = run_handle h st (map Item xs @ [END])"

section \<open>Reduce, Min, Max, Sum, Count\<close>

text \<open>
  \<^verbatim>\<open>
  class Reduce(Operator):
      NOTSET = object()

      def __init__(self, by, result=NOTSET, **kwargs):
          super().__init__(**kwargs)
          self.fn = by
          self.result = result
          self.prev_result = self.NOTSET

      async def handle(self, get, put, **kwargs):
          data = await get()
          if data is not END:
              result = self.fn(self.result, data)
              self.prev_result, self.result = self.result, result
          else:
              if self.prev_result is not self.NOTSET:
                  await put(self.result)
              self.result = self.NOTSET
  \<close>
  An accumulator is the sentinel \<open>NOTSET\<close> or a value. The fold function is the user's: it
  gets the accumulator as it is (the sentinel included) and may raise.
\<close>

datatype 'b slot = NOTSET | Val 'b

record ('b, 'a) Reduce_state =
  fn :: "'b slot \<Rightarrow> 'a \<Rightarrow> exc + 'b slot"
  result :: "'b slot"
  prev_result :: "'b slot"

definition Reduce_init ::
  "('b slot \<Rightarrow> 'a \<Rightarrow> exc + 'b slot) \<Rightarrow> 'b slot \<Rightarrow> ('b, 'a) Reduce_state" where
  "Reduce_init f r = \<lparr>fn = f, result = r, prev_result = NOTSET\<rparr>"

definition Reduce_handle ::
  "('b, 'a) Reduce_state \<Rightarrow> 'a data \<Rightarrow> exc + (('b, 'a) Reduce_state \<times> 'b slot list)" where
  "Reduce_handle st d =
     (case d of
        Item x \<Rightarrow>
          (case fn st (result st) x of
             Inl e \<Rightarrow> Inl e
           | Inr r \<Rightarrow> Inr (st\<lparr>prev_result := result st, result := r\<rparr>, []))
      | END \<Rightarrow>
          Inr (st\<lparr>result := NOTSET\<rparr>,
               if prev_result st \<noteq> NOTSET then [result st] else []))"

text \<open>
  \<^verbatim>\<open>
  class Min(Reduce):
      def __init__(self, result: float = POS_INF, **kwargs):
          super().__init__(by=min, result=result, **kwargs)

  class Max(Reduce):
      def __init__(self, result: float = NEG_INF, **kwargs):
          super().__init__(by=max, result=result, **kwargs)

  class Count(Reduce):
      def __init__(self, **kwargs):
          super().__init__(by=lambda a, b: a + 1, result=0, **kwargs)
  \<close>
  The builtins \<open>min(a, b)\<close> and \<open>max(a, b)\<close> evaluate \<open>b < a\<close> (or \<open>b > a\<close>) and return \<open>b\<close>
  when it holds, else \<open>a\<close>; a comparison that raises aborts them. Comparing anything with
  the sentinel object raises TypeError, and so does adding 1 to it. The defaults are
  \<open>Min_init (Number POS_INF)\<close> and \<open>Max_init (Number NEG_INF)\<close>.
\<close>

text \<open>
  Modelled from the spec: the constants \<open>POS_INF\<close> and \<open>NEG_INF\<close> of
  \<open>aiosaber.utility.typings\<close> (not part of the sources at hand), the positive and the
  negative infinity. Numbers are the integers with these two.
\<close>

datatype pynum = NEG_INF | Num int | POS_INF

fun pynum_less :: "pynum \<Rightarrow> pynum \<Rightarrow> bool" where
  "pynum_less NEG_INF b = (b \<noteq> NEG_INF)"
| "pynum_less (Num i) (Num j) = (i < j)"
| "pynum_less (Num i) POS_INF = True"
| "pynum_less (Num i) NEG_INF = False"
| "pynum_less POS_INF b = False"

text \<open>
  The accumulators and items of Min and Max: a number, a text or None. \<open>a < b\<close> and \<open>a > b\<close>
  compare two numbers, or two texts by their characters from the left (a proper prefix is
  the smaller); every other pair (a number with a text, None with anything) raises
  TypeError.
\<close>

datatype pyobj = Number pynum | Text string | NoneObj











section \<open>Python values\<close>

text \<open>
  The items that Sum and Flatten look into: None, booleans, integers, text, lists, tuples
  and dictionaries (an association list in insertion order).
\<close>

datatype val =
    VNone | VBool bool | VInt int | VStr string
  | VList "val list" | VTuple "val list" | VDict "(val \<times> val) list"

text \<open>A boolean is an integer in arithmetic and as an index.\<close>

fun as_int :: "val \<Rightarrow> int option" where
  "as_int (VInt i) = Some i"
| "as_int (VBool b) = Some (if b then 1 else 0)"
| "as_int v = None"

text \<open>\<open>a + b\<close>: numbers add, two texts, two lists or two tuples concatenate, else TypeError.\<close>

fun py_add :: "val \<Rightarrow> val \<Rightarrow> exc + val" where
  "py_add (VStr s) (VStr t) = Inr (VStr (s @ t))"
| "py_add (VList xs) (VList ys) = Inr (VList (xs @ ys))"
| "py_add (VTuple xs) (VTuple ys) = Inr (VTuple (xs @ ys))"
| "py_add a b =
     (case (as_int a, as_int b) of
        (Some i, Some j) \<Rightarrow> Inr (VInt (i + j))
      | _ \<Rightarrow> Inl TypeError)"

text \<open>Iterating a value: only text, lists, tuples and dictionaries (their keys) iterate.\<close>

fun py_iter :: "val \<Rightarrow> exc + val list" where
  "py_iter (VStr s) = Inr (map (\<lambda>c. VStr [c]) s)"
| "py_iter (VList xs) = Inr xs"
| "py_iter (VTuple xs) = Inr xs"
| "py_iter (VDict kvs) = Inr (map fst kvs)"
| "py_iter v = Inl TypeError"

fun py_sum_loop :: "val \<Rightarrow> val list \<Rightarrow> exc + val" where
  "py_sum_loop acc [] = Inr acc"
| "py_sum_loop acc (x # xs) =
     (case py_add acc x of Inl e \<Rightarrow> Inl e | Inr acc1 \<Rightarrow> py_sum_loop acc1 xs)"

text \<open>
  The builtin \<open>sum(iterable, start)\<close>: TypeError when the first argument does not iterate or
  the start is text; else the items are added to the start from the left.
\<close>

definition py_sum :: "val \<Rightarrow> val \<Rightarrow> exc + val" where
  "py_sum iterable start =
     (case py_iter iterable of
        Inl e \<Rightarrow> Inl e
      | Inr xs \<Rightarrow> (case start of VStr s \<Rightarrow> Inl TypeError | _ \<Rightarrow> py_sum_loop start xs))"

text \<open>
  \<^verbatim>\<open>
  class Sum(Reduce):
      def __init__(self, **kwargs):
          super().__init__(by=sum, result=0, **kwargs)
  \<close>
  \<open>self.fn(self.result, data)\<close> is \<open>sum(self.result, data)\<close>: the accumulator is the first
  argument of the builtin (the iterable) and the item the second (the start).
\<close>

definition Sum_fn :: "val slot \<Rightarrow> val \<Rightarrow> exc + val slot" where
  "Sum_fn acc x =
     (case acc of
        NOTSET \<Rightarrow> Inl TypeError
      | Val a \<Rightarrow> (case py_sum a x of Inl e \<Rightarrow> Inl e | Inr v \<Rightarrow> Inr (Val v)))"

definition Sum_init :: "(val, val) Reduce_state" where
  "Sum_init = Reduce_init Sum_fn (Val (VInt 0))"

section \<open>Flatten\<close>

text \<open>
  \<^verbatim>\<open>
  def __init__(self, max_level: int = 1, **kwargs):
      super().__init__(**kwargs)
      self.max_level = max_level or 999999999999
  \<close>
  \<open>flatten\<close> is the module's ready-made stage \<^verbatim>\<open>flatten = Flatten()\<close>, with the default level 1.
\<close>

record Flatten_state =
  max_level :: int

definition Flatten_init :: "int \<Rightarrow> Flatten_state" where
  "Flatten_init ml = \<lparr>max_level = (if ml = 0 then 999999999999 else ml)\<rparr>"

definition flatten :: Flatten_state where
  "flatten = Flatten_init 1"

text \<open>
  \<^verbatim>\<open>
  def traverse(items, level):
      try:
          if level >= self.max_level + 1:
              raise TypeError
          if isinstance(items, abc.Sequence) and not isinstance(items, str):
              for _item in items:
                  traverse(_item, level + 1)
          else:
              raise TypeError
      except TypeError:
          flattened_items.append(items)
  \<close>
  Lists and tuples are the sequences that are not text; every other value is a leaf. A
  nested call catches its own TypeError, so the result is the list of values appended, in
  order.
\<close>

fun traverse :: "int \<Rightarrow> val \<Rightarrow> int \<Rightarrow> val list" where
  "traverse ml (VList xs) level =
     (if level \<ge> ml + 1 then [VList xs]
      else concat (map (\<lambda>x. traverse ml x (level + 1)) xs))"
| "traverse ml (VTuple xs) level =
     (if level \<ge> ml + 1 then [VTuple xs]
      else concat (map (\<lambda>x. traverse ml x (level + 1)) xs))"
| "traverse ml items level = [items]"

text \<open>
  \<^verbatim>\<open>
  async def handle(self, get, put, **kwargs):
      data = await get()
      if data is END:
          return await put(END)
      ...
      flattened_items = []
      traverse(data, 1)
      for item in flattened_items:
          await put(item)
  \<close>
\<close>

definition Flatten_handle ::
  "Flatten_state \<Rightarrow> val data \<Rightarrow> exc + (Flatten_state \<times> val data list)" where
  "Flatten_handle st d =
     (case d of
        END \<Rightarrow> Inr (st, [END])
      | Item x \<Rightarrow> Inr (st, map Item (traverse (max_level st) x 1)))"

text \<open>The nested value \<open>[[1, 2], [3, [4, 5]]]\<close> of the spec's example.\<close>

definition nested :: val where
  "nested = VList [VList [VInt 1, VInt 2], VList [VInt 3, VList [VInt 4, VInt 5]]]"


section \<open>GetItem\<close>

text \<open>
  GetItem hands objects on: \<open>item[key]\<close> is the very object held by the item, and
  \<open>deepcopy\<close> makes new ones. So the values of this stage are objects: every list and
  every dictionary carries its identity (its address), as mutable objects are told apart
  by identity; the other values are immutable. A value is a tree: an object occurs once
  in it.
\<close>

datatype obj =
    ONone | OBool bool | OInt int | OStr string
  | OList nat "obj list" | OTuple "obj list" | ODict nat "(obj \<times> obj) list"

text \<open>The Python value of an object, the identities forgotten.\<close>

fun erase :: "obj \<Rightarrow> val" where
  "erase ONone = VNone"
| "erase (OBool b) = VBool b"
| "erase (OInt i) = VInt i"
| "erase (OStr s) = VStr s"
| "erase (OList a xs) = VList (map erase xs)"
| "erase (OTuple xs) = VTuple (map erase xs)"
| "erase (ODict a kvs) = VDict (map (\<lambda>p. (erase (fst p), erase (snd p))) kvs)"

text \<open>The identities of the lists and dictionaries inside an object, itself first.\<close>

fun ids :: "obj \<Rightarrow> nat list" where
  "ids (OList a xs) = a # concat (map ids xs)"
| "ids (OTuple xs) = concat (map ids xs)"
| "ids (ODict a kvs) = a # concat (map (\<lambda>p. ids (fst p) @ ids (snd p)) kvs)"
| "ids v = []"

text \<open>
  \<^verbatim>\<open>
  def __init__(self, key: Any, default: Any = None, **kwargs):
      super().__init__(**kwargs)
      self.key = key
      self.default = default
  \<close>
\<close>

record GetItem_state =
  key :: obj
  default :: obj

definition GetItem_init :: "obj \<Rightarrow> obj \<Rightarrow> GetItem_state" where
  "GetItem_init k d = \<lparr>key = k, default = d\<rparr>"

text \<open>
  \<open>data[key]\<close>. A list, a tuple or a text takes an integer index (a boolean counts as
  one), negative from the end, IndexError when out of range and TypeError for any other
  key. A dictionary takes a hashable key (lists and dictionaries are not, nor a tuple
  holding one: TypeError), compared as Python compares keys (\<open>True == 1\<close>), KeyError when
  missing. Nothing else can be subscripted: TypeError. The result is the object held, not
  a copy.
\<close>

fun index_of :: "obj \<Rightarrow> int option" where
  "index_of (OInt i) = Some i"
| "index_of (OBool b) = Some (if b then 1 else 0)"
| "index_of v = None"

fun py_hashable :: "obj \<Rightarrow> bool" where
  "py_hashable (OList a xs) = False"
| "py_hashable (ODict a kvs) = False"
| "py_hashable (OTuple xs) = list_all py_hashable xs"
| "py_hashable v = True"

fun norm_key :: "obj \<Rightarrow> obj" where
  "norm_key (OBool b) = OInt (if b then 1 else 0)"
| "norm_key (OTuple xs) = OTuple (map norm_key xs)"
| "norm_key v = v"

fun py_dict_lookup :: "(obj \<times> obj) list \<Rightarrow> obj \<Rightarrow> obj option" where
  "py_dict_lookup [] k = None"
| "py_dict_lookup ((k1, v) # kvs) k =
     (if norm_key k1 = norm_key k then Some v else py_dict_lookup kvs k)"

definition py_index :: "'a list \<Rightarrow> int \<Rightarrow> exc + 'a" where
  "py_index xs i =
     (let n = int (length xs); j = (if i < 0 then i + n else i)
      in if 0 \<le> j \<and> j < n then Inr (xs ! nat j) else Inl IndexError)"

fun py_getitem :: "obj \<Rightarrow> obj \<Rightarrow> exc + obj" where
  "py_getitem (OList a xs) k =
     (case index_of k of Some i \<Rightarrow> py_index xs i | None \<Rightarrow> Inl TypeError)"
| "py_getitem (OTuple xs) k =
     (case index_of k of Some i \<Rightarrow> py_index xs i | None \<Rightarrow> Inl TypeError)"
| "py_getitem (OStr s) k =
     (case index_of k of
        Some i \<Rightarrow> (case py_index s i of Inl e \<Rightarrow> Inl e | Inr c \<Rightarrow> Inr (OStr [c]))
      | None \<Rightarrow> Inl TypeError)"
| "py_getitem (ODict a kvs) k =
     (if \<not> py_hashable k then Inl TypeError
      else (case py_dict_lookup kvs k of Some v \<Rightarrow> Inr v | None \<Rightarrow> Inl KeyError))"
| "py_getitem v k = Inl TypeError"

text \<open>
  \<open>copy.deepcopy\<close> of the standard library. It takes the next free identity (every object
  that exists has a smaller one) and returns the copy with the next free identity after
  it: a list or a dictionary is copied into a new object, then its items in order; a tuple
  is rebuilt from the copies of its items; the other values are returned as they are.
\<close>

function deepcopy :: "nat \<Rightarrow> obj \<Rightarrow> obj \<times> nat"
  and deepcopy_items :: "nat \<Rightarrow> obj list \<Rightarrow> obj list \<times> nat"
  and deepcopy_pairs :: "nat \<Rightarrow> (obj \<times> obj) list \<Rightarrow> (obj \<times> obj) list \<times> nat" where
  "deepcopy n (OList a xs) =
     (case deepcopy_items (Suc n) xs of (ys, n1) \<Rightarrow> (OList n ys, n1))"
| "deepcopy n (OTuple xs) =
     (case deepcopy_items n xs of (ys, n1) \<Rightarrow> (OTuple ys, n1))"
| "deepcopy n (ODict a kvs) =
     (case deepcopy_pairs (Suc n) kvs of (ps, n1) \<Rightarrow> (ODict n ps, n1))"
| "deepcopy n ONone = (ONone, n)"
| "deepcopy n (OBool b) = (OBool b, n)"
| "deepcopy n (OInt i) = (OInt i, n)"
| "deepcopy n (OStr s) = (OStr s, n)"
| "deepcopy_items n [] = ([], n)"
| "deepcopy_items n (x # xs) =
     (case deepcopy n x of
        (y, n1) \<Rightarrow> (case deepcopy_items n1 xs of (ys, n2) \<Rightarrow> (y # ys, n2)))"
| "deepcopy_pairs n [] = ([], n)"
| "deepcopy_pairs n ((k, v) # kvs) =
     (case deepcopy n k of
        (k1, n1) \<Rightarrow>
          (case deepcopy n1 v of
             (v1, n2) \<Rightarrow>
               (case deepcopy_pairs n2 kvs of (ps, n3) \<Rightarrow> ((k1, v1) # ps, n3))))"
  by pat_completeness auto
termination
  by (relation "measure (\<lambda>x. case x of
         Inl (n, v) \<Rightarrow> size v
       | Inr (Inl (n, xs)) \<Rightarrow> size_list size xs
       | Inr (Inr (n, kvs)) \<Rightarrow> size_list (size_prod size size) kvs)") auto

text \<open>
  \<^verbatim>\<open>
  async def handle(self, get, put, **kwargs):
      data = await get()
      if data is END:
          return await put(END)
      try:
          data = data[self.key]
      except (TypeError, KeyError, IndexError) as e:
          data = deepcopy(self.default)
      await put(data)
  \<close>
  An activation takes and returns the next free identity.
\<close>

definition GetItem_handle ::
  "GetItem_state \<Rightarrow> nat \<Rightarrow> obj data \<Rightarrow> exc + (GetItem_state \<times> nat \<times> obj data list)" where
  "GetItem_handle st n d =
     (case d of
        END \<Rightarrow> Inr (st, n, [END])
      | Item x \<Rightarrow>
          (case py_getitem x (key st) of
             Inr v \<Rightarrow> Inr (st, n, [Item v])
           | Inl e \<Rightarrow>
               if e = TypeError \<or> e = KeyError \<or> e = IndexError
               then (case deepcopy n (default st) of (c, n1) \<Rightarrow> Inr (st, n1, [Item c]))
               else Inl e))"

section \<open>Group\<close>

text \<open>
  \<^verbatim>\<open>
  def __init__(self, by=lambda x: x[0], num: int = POS_INF, keep: bool = True, **kwargs):
      assert num > 1
      super().__init__(**kwargs)
      self.key_fn = by
      self.group_size = num
      self.keep_rest = keep
      self.groups = defaultdict(list)
  \<close>
  The grouping table is an association list in insertion order, the order in which a
  dictionary iterates. The key function is the user's and may raise; its result is a
  hashable key.
\<close>

record ('a, 'k) Group_state =
  key_fn :: "'a \<Rightarrow> exc + 'k"
  group_size :: pynum
  keep_rest :: bool
  groups :: "('k \<times> 'a list) list"

definition Group_init ::
  "('a \<Rightarrow> exc + 'k) \<Rightarrow> pynum \<Rightarrow> bool \<Rightarrow> exc + ('a, 'k) Group_state" where
  "Group_init kf n keep =
     (if pynum_less (Num 1) n
      then Inr \<lparr>key_fn = kf, group_size = n, keep_rest = keep, groups = []\<rparr>
      else Inl AssertionError)"

text \<open>
  \<^verbatim>\<open>
  async def handle(self, get, put, **kwargs):
      data = await get()
      if data is not END:
          key = self.key_fn(data)
          group = self.groups[key]
          group.append(data)
          if len(group) >= self.group_size:
              await put((key, tuple(group)))
              del self.groups[key]
      else:
          if self.keep_rest:
              for key, values in self.groups.items():
                  await self.put((key, tuple(values)))
              self.groups = defaultdict(list)
  \<close>
  \<open>self.groups[key]\<close> enters a missing key with an empty bucket at the end of the table, and
  \<open>append\<close> changes the bucket in place: \<open>AList.update\<close> does both.
\<close>

definition Group_handle ::
  "('a, 'k) Group_state \<Rightarrow> 'a data \<Rightarrow> exc + (('a, 'k) Group_state \<times> ('k \<times> 'a list) list)" where
  "Group_handle st d =
     (case d of
        Item x \<Rightarrow>
          (case key_fn st x of
             Inl e \<Rightarrow> Inl e
           | Inr k \<Rightarrow>
               (let group = (case map_of (groups st) k of Some g \<Rightarrow> g | None \<Rightarrow> []) @ [x];
                    gs = AList.update k group (groups st)
                in if \<not> pynum_less (Num (int (length group))) (group_size st)
                   then Inr (st\<lparr>groups := AList.delete k gs\<rparr>, [(k, group)])
                   else Inr (st\<lparr>groups := gs\<rparr>, [])))
      | END \<Rightarrow>
          (if keep_rest st then Inr (st\<lparr>groups := []\<rparr>, groups st) else Inr (st, [])))"

text \<open>The key function of the spec's example, \<^verbatim>\<open>lambda x: x % 2\<close>.\<close>

definition parity :: "int \<Rightarrow> exc + int" where
  "parity x = Inr (x mod 2)"

section \<open>Until\<close>

text \<open>
  \<^verbatim>\<open>
  def __init__(self, by: Union[Predicate, object], **kwargs):
      super().__init__(**kwargs)
      self.by = by
      self.stop = False

  async def handle(self, get, put, **kwargs):
      data = await get()
      if data is not END and not self.stop:
          self.stop = self.by(data) if callable(self.by) else data == self.by
          if not self.stop:
              await self.put(data)
  \<close>
  \<open>by\<close> is a predicate of the user (it may raise) or a marker to compare with. A \<open>handle\<close>
  returns \<open>None\<close>, or END when the stage wants to terminate itself (as Take does); the one
  of Until never returns END.
\<close>

datatype 'a stop_by = Predicate "'a \<Rightarrow> exc + bool" | Marker 'a

datatype ret = RetNone | RetEND

record 'a Until_state =
  until_by :: "'a stop_by"
  stop :: bool

definition Until_init :: "'a stop_by \<Rightarrow> 'a Until_state" where
  "Until_init b = \<lparr>until_by = b, stop = False\<rparr>"

definition stop_condition :: "'a stop_by \<Rightarrow> 'a \<Rightarrow> exc + bool" where
  "stop_condition b x = (case b of Predicate f \<Rightarrow> f x | Marker v \<Rightarrow> Inr (x = v))"

definition Until_handle ::
  "'a Until_state \<Rightarrow> 'a data \<Rightarrow> exc + ('a Until_state \<times> 'a data list \<times> ret)" where
  "Until_handle st d =
     (case d of
        Item x \<Rightarrow>
          (if \<not> stop st then
             (case stop_condition (until_by st) x of
                Inl e \<Rightarrow> Inl e
              | Inr s \<Rightarrow> Inr (st\<lparr>stop := s\<rparr>, if \<not> s then [Item x] else [], RetNone))
           else Inr (st, [], RetNone))
      | END \<Rightarrow> Inr (st, [], RetNone))"

text \<open>One activation for the per-item loop: what it puts and what it returns.\<close>

definition Until_activation ::
  "'a Until_state \<Rightarrow> 'a data \<Rightarrow> exc + ('a Until_state \<times> ('a data list \<times> ret) list)" where
  "Until_activation st d =
     (case Until_handle st d of Inl e \<Rightarrow> Inl e | Inr (st1, puts, r) \<Rightarrow> Inr (st1, [(puts, r)]))"


section \<open>Mix\<close>

text \<open>
  \<^verbatim>\<open>
  async def handle_stream(self, consumer, **kwargs):
      has_constant_ch = any(isinstance(q.ch, ConstantChannel) for q in consumer.queues)
      if has_constant_ch > 0:
          raise ValueError("Can not mix with constant channel.")

      async def pump_queue(q):
          async for data in q:
              await self.handler(self, async_getter(data), self.put)

      done, pending = await asyncio.wait(
          [asyncio.ensure_future(pump_queue(q)) for q in consumer.queues],
          return_when=asyncio.FIRST_EXCEPTION
      )
      for task in done:
          if task.exception() is not None:
              raise task.exception()

      await self.handler(self, async_getter(END), self.put)
  \<close>
  Every source has one drainer, the task that runs \<open>pump_queue\<close> on its queue. How far the
  scheduler has let each drainer run is an input: a source comes with the state of its
  drainer at the moment the wait is resumed (pending, returned, raised an exception, or
  cancelled from outside). The sources are listed in the order in which the set \<open>done\<close>
  iterates; \<open>any\<close> does not depend on the order.
\<close>

datatype task_state = Pending | Returned | Raised exc | Cancelled

record source =
  is_constant :: bool
  drainer :: task_state

fun is_Raised :: "task_state \<Rightarrow> bool" where
  "is_Raised (Raised e) = True"
| "is_Raised t = False"

text \<open>
  \<open>asyncio.wait(fs, return_when=FIRST_EXCEPTION)\<close> of the standard library, on the states of
  its tasks: ValueError for an empty list of tasks; otherwise it returns once no task is
  pending or some task has raised (a cancelled task does not end the wait), with the tasks
  that are done and those still pending, and cancels none. \<open>None\<close>: in these states the
  wait has not returned.
\<close>

definition asyncio_wait ::
  "task_state list \<Rightarrow> exc + (task_state list \<times> task_state list) option" where
  "asyncio_wait fs =
     (if fs = [] then Inl ValueError
      else if Pending \<notin> set fs \<or> list_ex is_Raised fs
      then Inr (Some (filter (\<lambda>t. t \<noteq> Pending) fs, filter (\<lambda>t. t = Pending) fs))
      else Inr None)"

text \<open>
  The loop over \<open>done\<close>. \<open>task.exception()\<close> is the exception of a task that raised and
  \<open>None\<close> for one that returned; it raises CancelledError itself on a cancelled task, and
  InvalidStateError on a task that is not done.
\<close>

fun raise_first :: "task_state list \<Rightarrow> exc option" where
  "raise_first [] = None"
| "raise_first (Returned # ts) = raise_first ts"
| "raise_first (Raised e # ts) = Some e"
| "raise_first (Cancelled # ts) = Some CancelledError"
| "raise_first (Pending # ts) = Some InvalidStateError"

text \<open>
  The result: what \<open>handle_stream\<close> raises or puts after the wait (\<open>None\<close> while it is
  still waiting), and the drainers that are pending when it is left. Nothing is called on
  \<open>pending\<close>, so these stay as they are. With a constant channel among the sources, or with
  no source, no drainer is started.
\<close>

definition Mix_handle_stream ::
  "'a handler \<Rightarrow> source list \<Rightarrow> (exc + 'a data list) option \<times> task_state list" where
  "Mix_handle_stream handler sources =
     (if list_ex is_constant sources then (Some (Inl ValueError), [])
      else (case asyncio_wait (map drainer sources) of
              Inl e \<Rightarrow> (Some (Inl e), [])
            | Inr None \<Rightarrow> (None, filter (\<lambda>t. t = Pending) (map drainer sources))
            | Inr (Some (done_tasks, pending_tasks)) \<Rightarrow>
                (case raise_first done_tasks of
                   Some e \<Rightarrow> (Some (Inl e), pending_tasks)
                 | None \<Rightarrow> (Some (Inr (handler END)), pending_tasks))))"

section \<open>Verified properties\<close>

subsection \<open>The handler without interceptors\<close>

lemma BaseTask_handle_calls: "concat (map BaseTask_handle ds) = ds"
  by (induction ds) (simp_all add: BaseTask_handle_def)

lemma count_END_items: "count_list (map Item xs) END = 0"
  by (induction xs) simp_all

subsection \<open>Concat\<close>

lemma Concat_queue_calls: "Concat_queue h q = concat (map h (map Item q))"
  by (induction q) simp_all

lemma Concat_queues_calls: "Concat_queues h qs = concat (map h (map Item (concat qs)))"
  by (induction qs) (simp_all add: Concat_queue_calls)

text \<open>
  Claim C6. For every list of sources, Concat activates the handler on every item of
  source 0, then on every item of source 1, and so on in declared order, and then once on
  END. With no interceptor the output is these items in that order and then exactly one
  END; with the sources [1,2] and [3,4] it is 1, 2, 3, 4, END.
\<close>

theorem Concat_order_and_completion:
  "Concat_handle_stream handler qs = concat (map handler (map Item (concat qs) @ [END]))
   \<and> Concat_handle_stream BaseTask_handle qs = map Item (concat qs) @ [END]
   \<and> count_list (Concat_handle_stream BaseTask_handle qs) END = 1
   \<and> Concat_handle_stream BaseTask_handle [[1, 2], [3, 4 :: int]]
       = [Item 1, Item 2, Item 3, Item 4, END]"
proof -
  have gen: "Concat_handle_stream h qs = concat (map h (map Item (concat qs) @ [END]))"
    for h :: "'b handler" and qs
    by (simp add: Concat_handle_stream_def Concat_queues_calls)
  have base: "Concat_handle_stream BaseTask_handle qs = map Item (concat qs) @ [END]"
    for qs :: "'b list list"
    by (simp only: gen BaseTask_handle_calls)
  show ?thesis
    by (simp add: gen [of handler] base count_END_items)
qed

subsection \<open>Distinct\<close>

lemma Distinct_loop_spec:
  "snd (Filter_loop h (Callable Distinct_filter) \<lparr>prev = p\<rparr> xs) =
     concat (map h (map Item
       (map snd (filter (\<lambda>q. fst q \<noteq> Some (snd q)) (zip (p # map Some xs) xs)))))"
proof (induction xs arbitrary: p)
  case Nil
  show ?case by simp
next
  case (Cons x xs)
  show ?case
  proof (cases "Some x = p")
    case True
    then have "Distinct_filter \<lparr>prev = p\<rparr> x = (False, \<lparr>prev = Some x\<rparr>)"
      by (auto simp: Distinct_filter_def)
    then show ?thesis using True Cons.IH [of "Some x"]
      by (auto simp: split_beta)
  next
    case False
    then have "Distinct_filter \<lparr>prev = p\<rparr> x = (True, \<lparr>prev = Some x\<rparr>)"
      by (simp add: Distinct_filter_def)
    then show ?thesis using False Cons.IH [of "Some x"]
      by (auto simp: split_beta)
  qed
qed

text \<open>
  Claim C7. Distinct collapses consecutive runs only: the handler is activated on an item
  iff the item differs from the input item immediately before it (the first item is
  always forwarded), and then once on END. With no interceptor [1,1,2,2,1] gives [1,2,1]
  and [1,1,2,1,3,2] gives [1,2,1,3,2], each followed by END.
\<close>

theorem Distinct_consecutive_runs:
  "snd (Distinct_handle_stream handler xs)
     = concat (map handler (map Item (Distinct_spec xs) @ [END]))
   \<and> snd (Distinct_handle_stream BaseTask_handle xs) = map Item (Distinct_spec xs) @ [END]
   \<and> snd (Distinct_handle_stream BaseTask_handle [1, 1, 2, 2, 1 :: int])
       = [Item 1, Item 2, Item 1, END]
   \<and> snd (Distinct_handle_stream BaseTask_handle [1, 1, 2, 1, 3, 2 :: int])
       = [Item 1, Item 2, Item 1, Item 3, Item 2, END]"
proof -
  have gen: "snd (Distinct_handle_stream h ys)
       = concat (map h (map Item (Distinct_spec ys) @ [END]))"
    for h :: "'b handler" and ys
    using Distinct_loop_spec [of h None ys]
    by (simp add: Distinct_handle_stream_def Filter_handle_stream_def Distinct_init_def
        Distinct_spec_def split_beta)
  have base: "snd (Distinct_handle_stream BaseTask_handle ys)
       = map Item (Distinct_spec ys) @ [END]"
    for ys :: "'b list"
    by (simp only: gen BaseTask_handle_calls)
  show ?thesis
    by (simp add: gen [of handler] base) (simp add: Distinct_spec_def)
qed

subsection \<open>Sample\<close>

lemma Sample_loop_spec:
  "length res = min (nat n) cur \<Longrightarrow>
   Sample_loop n r cur res ds =
     Inr (cur + length ds, foldl (reservoir_step (nat n) r) res (List.enumerate cur ds))"
proof (induction ds arbitrary: cur res)
  case Nil
  show ?case by simp
next
  case (Cons d ds)
  let ?res = "reservoir_step (nat n) r res (cur, d)"
  show ?case
  proof (cases "int cur < n")
    case True
    then have lt: "cur < nat n" by auto
    then have step: "?res = res @ [d]" by (simp add: reservoir_step_def)
    have "length (res @ [d]) = min (nat n) (Suc cur)" using Cons.prems lt by auto
    from Cons.IH [OF this] True show ?thesis
      by (simp add: step)
  next
    case False
    then have len: "length res = nat n" and nle: "\<not> cur < nat n" using Cons.prems by auto
    show ?thesis
    proof (cases "int (r cur) < n")
      case True
      then have lt: "r cur < length res" "r cur < nat n" using len by auto
      have step: "?res = res[r cur := d]" using nle lt by (simp add: reservoir_step_def)
      have "length (res[r cur := d]) = min (nat n) (Suc cur)" using len nle by auto
      from Cons.IH [OF this] False True lt show ?thesis
        by (simp add: step Let_def)
    next
      case F2: False
      then have nlt: "\<not> r cur < nat n" by auto
      have step: "?res = res" using nle nlt by (simp add: reservoir_step_def)
      have "length res = min (nat n) (Suc cur)" using len nle by auto
      from Cons.IH [OF this] False F2 show ?thesis
        by (simp add: step Let_def)
    qed
  qed
qed

lemma reservoir_fold_props:
  "length res = min k cur \<Longrightarrow>
   length (foldl (reservoir_step k r) res (List.enumerate cur ds)) = min k (cur + length ds)
   \<and> set (foldl (reservoir_step k r) res (List.enumerate cur ds)) \<subseteq> set res \<union> set ds"
proof (induction ds arbitrary: cur res)
  case Nil
  then show ?case by simp
next
  case (Cons d ds)
  let ?res = "reservoir_step k r res (cur, d)"
  have len: "length ?res = min k (Suc cur)"
    using Cons.prems by (auto simp: reservoir_step_def)
  have sub: "set ?res \<subseteq> insert d (set res)"
    using set_update_subset_insert [of res "r cur" d] by (auto simp: reservoir_step_def)
  from Cons.IH [OF len] sub show ?case
    by auto
qed

lemma Sample_emit_calls: "Sample_emit h xs = concat (map h (map Item xs))"
  by (induction xs) simp_all

text \<open>
  Claim C5. For a stage built with \<open>Sample(k)\<close> and any draws, the stream of \<open>n\<close> items makes
  Sample keep exactly \<open>min k n\<close> items, each one an item of the input, activate the handler
  on each of them in reservoir order and then once on END; with no interceptor the output
  is these items and then exactly one END. No slot assignment fails, and the reservoir is
  the one the algorithm of the spec computes (item \<open>i\<close> stored directly while \<open>i < k\<close>; for
  \<open>i \<ge> k\<close> the draw \<open>r\<close> replaces slot \<open>r\<close> iff \<open>r < k\<close>).
\<close>

theorem Sample_correct:
  assumes "Sample_init k = Inr st"
  shows "\<exists>out. Sample_handle_stream handler st randint ds
            = Inr (st\<lparr>reservoir := out\<rparr>, concat (map handler (map Item out @ [END])))
          \<and> Sample_handle_stream BaseTask_handle st randint ds
            = Inr (st\<lparr>reservoir := out\<rparr>, map Item out @ [END])
          \<and> length out = min (nat k) (length ds)
          \<and> set out \<subseteq> set ds
          \<and> out = reservoir_spec (nat k) randint ds"
proof -
  from assms have st: "num st = k" "reservoir st = []"
    by (auto simp: Sample_init_def split: if_splits)
  have l0: "length ([] :: 'a list) = min (nat k) 0" by simp
  let ?out = "reservoir_spec (nat k) randint ds"
  have loop: "Sample_loop k randint 0 [] ds = Inr (length ds, ?out)"
    using Sample_loop_spec [OF l0, of randint ds] by (simp add: reservoir_spec_def)
  have props: "length ?out = min (nat k) (length ds)" "set ?out \<subseteq> set ds"
    using reservoir_fold_props [OF l0, of randint ds] by (simp_all add: reservoir_spec_def)
  have tk: "take (length ds) ?out = ?out" using props(1) by simp
  have gen: "Sample_handle_stream h st randint ds
       = Inr (st\<lparr>reservoir := ?out\<rparr>, concat (map h (map Item ?out @ [END])))"
    for h :: "'a handler"
    using loop st tk by (simp add: Sample_handle_stream_def Sample_emit_calls)
  have base: "Sample_handle_stream BaseTask_handle st randint ds
       = Inr (st\<lparr>reservoir := ?out\<rparr>, map Item ?out @ [END])"
    by (simp only: gen BaseTask_handle_calls)
  from gen [of handler] base props show ?thesis by blast
qed

text \<open>With \<open>k = 2\<close>, the stream 10, 20, 30 and every draw 0, the reservoir ends as [30, 20].\<close>

theorem Sample_correct_witness:
  "Sample_init 2 = (Inr \<lparr>num = 2, reservoir = []\<rparr> :: exc + int Sample_state)
   \<and> Sample_handle_stream BaseTask_handle \<lparr>num = 2, reservoir = []\<rparr> (\<lambda>i. 0) [10, 20, 30 :: int]
       = Inr (\<lparr>num = 2, reservoir = [30, 20]\<rparr>, [Item 30, Item 20, END])"
  using Sample_correct [of 2 "\<lparr>num = 2, reservoir = []\<rparr>" BaseTask_handle "\<lambda>i. 0"
      "[10, 20, 30 :: int]"]
  by (simp add: Sample_init_def reservoir_spec_def reservoir_step_def BaseTask_handle_def)

subsection \<open>The per-item loop\<close>


subsection \<open>Reduce\<close>
















subsection \<open>Sum\<close>

text \<open>
  Claim C3. On the empty stream Sum emits nothing. On 1, 2, 3 the claim expects the single
  item 6 at END; the stage raises TypeError at the first item instead, as it does on every
  non-empty stream: \<open>sum(0, 1)\<close> asks the integer 0 to iterate.
\<close>

theorem Sum_raises_TypeError:
  "BaseTask_handle_stream Reduce_handle Sum_init [VInt 1, VInt 2, VInt 3] = Inl TypeError
   \<and> BaseTask_handle_stream Reduce_handle Sum_init (x # xs) = Inl TypeError
   \<and> map_sum id snd (BaseTask_handle_stream Reduce_handle Sum_init []) = Inr []"
  by (simp add: BaseTask_handle_stream_def Reduce_handle_def Reduce_init_def Sum_init_def
      Sum_fn_def py_sum_def)

subsection \<open>Flatten\<close>

lemma traverse_text: "traverse ml (VStr s) level = [VStr s]"
  by simp

text \<open>
  Claim C2, as amended. With \<open>max_level = 1\<close> the single item \<open>[[1,2],[3,[4,5]]]\<close> is expanded
  one level, into the two items \<open>[1,2]\<close> and \<open>[3,[4,5]]\<close>; it is the stream of the two items
  \<open>[1,2]\<close> and \<open>[3,[4,5]]\<close> that comes out as 1, 2, 3, \<open>[4,5]\<close> (then END), and the single item
  does so with \<open>max_level = 2\<close>. With \<open>max_level = 0\<close> (unbounded) the single item comes out as
  1, 2, 3, 4, 5. An omitted \<open>max_level\<close> is 1. A text value is a leaf at every level, and END
  passes through.
\<close>

theorem Flatten_levels:
  "map_sum id snd (Flatten_handle (Flatten_init 1) (Item nested))
     = Inr [Item (VList [VInt 1, VInt 2]), Item (VList [VInt 3, VList [VInt 4, VInt 5]])]
   \<and> map_sum id snd (BaseTask_handle_stream Flatten_handle (Flatten_init 1)
        [VList [VInt 1, VInt 2], VList [VInt 3, VList [VInt 4, VInt 5]]])
     = Inr [Item (VInt 1), Item (VInt 2), Item (VInt 3), Item (VList [VInt 4, VInt 5]), END]
   \<and> map_sum id snd (Flatten_handle (Flatten_init 2) (Item nested))
     = Inr [Item (VInt 1), Item (VInt 2), Item (VInt 3), Item (VList [VInt 4, VInt 5])]
   \<and> map_sum id snd (Flatten_handle (Flatten_init 0) (Item nested))
     = Inr [Item (VInt 1), Item (VInt 2), Item (VInt 3), Item (VInt 4), Item (VInt 5)]
   \<and> flatten = Flatten_init 1
   \<and> traverse ml (VStr s) level = [VStr s]
   \<and> Flatten_handle st END = Inr (st, [END])"
  by (simp add: Flatten_handle_def Flatten_init_def nested_def BaseTask_handle_stream_def
      flatten_def)

text \<open>
  Claim C2 as stated fails: with \<open>max_level = 1\<close> the single item \<open>[[1,2],[3,[4,5]]]\<close> does
  not come out as 1, 2, 3, \<open>[4,5]\<close>.
\<close>

theorem Flatten_single_item_counterexample:
  "map_sum id snd (Flatten_handle (Flatten_init 1) (Item nested))
     \<noteq> Inr [Item (VInt 1), Item (VInt 2), Item (VInt 3), Item (VList [VInt 4, VInt 5])]"
  by (simp add: Flatten_handle_def Flatten_init_def nested_def)

subsection \<open>GetItem\<close>

lemma upt_join: "n \<le> m \<Longrightarrow> m \<le> k \<Longrightarrow> [n..<m] @ [m..<k] = [n..<k]"
  by (metis le_Suc_ex upt_add_eq_append)

lemma upt_first: "Suc n \<le> m \<Longrightarrow> n # [Suc n..<m] = [n..<m]"
  by (simp add: upt_conv_Cons)

lemma deepcopy_props:
  "erase (fst (deepcopy n v)) = erase v
     \<and> ids (fst (deepcopy n v)) = [n..<snd (deepcopy n v)] \<and> n \<le> snd (deepcopy n v)"
  "map erase (fst (deepcopy_items n xs)) = map erase xs
     \<and> concat (map ids (fst (deepcopy_items n xs))) = [n..<snd (deepcopy_items n xs)]
     \<and> n \<le> snd (deepcopy_items n xs)"
  "map (\<lambda>p. (erase (fst p), erase (snd p))) (fst (deepcopy_pairs n kvs))
       = map (\<lambda>p. (erase (fst p), erase (snd p))) kvs
     \<and> concat (map (\<lambda>p. ids (fst p) @ ids (snd p)) (fst (deepcopy_pairs n kvs)))
       = [n..<snd (deepcopy_pairs n kvs)]
     \<and> n \<le> snd (deepcopy_pairs n kvs)"
proof (induction n v and n xs and n kvs rule: deepcopy_deepcopy_items_deepcopy_pairs.induct)
  case (1 n a xs)
  then show ?case by (auto simp: split_beta upt_first)
next
  case (2 n xs)
  then show ?case by (auto simp: split_beta)
next
  case (3 n a kvs)
  then show ?case by (auto simp: split_beta upt_first)
next
  case (9 n x xs)
  obtain y n1 where d: "deepcopy n x = (y, n1)" by (cases "deepcopy n x")
  obtain ys n2 where ds: "deepcopy_items n1 xs = (ys, n2)" by (cases "deepcopy_items n1 xs")
  from 9(1) d have a: "erase y = erase x" "ids y = [n..<n1]" "n \<le> n1" by auto
  from 9(2) [OF d [symmetric]] ds
  have b: "map erase ys = map erase xs" "concat (map ids ys) = [n1..<n2]" "n1 \<le> n2" by auto
  show ?case using a b by (simp add: d ds upt_join)
next
  case (11 n k v kvs)
  obtain k1 n1 where d1: "deepcopy n k = (k1, n1)" by (cases "deepcopy n k")
  obtain v1 n2 where d2: "deepcopy n1 v = (v1, n2)" by (cases "deepcopy n1 v")
  obtain ps n3 where d3: "deepcopy_pairs n2 kvs = (ps, n3)" by (cases "deepcopy_pairs n2 kvs")
  from 11(1) d1 have a: "erase k1 = erase k" "ids k1 = [n..<n1]" "n \<le> n1" by auto
  from 11(2) [OF d1 [symmetric]] d2
  have b: "erase v1 = erase v" "ids v1 = [n1..<n2]" "n1 \<le> n2" by auto
  from 11(3) [OF d1 [symmetric] d2 [symmetric]] d3
  have c: "map (\<lambda>p. (erase (fst p), erase (snd p))) ps
             = map (\<lambda>p. (erase (fst p), erase (snd p))) kvs"
    "concat (map (\<lambda>p. ids (fst p) @ ids (snd p)) ps) = [n2..<n3]" "n2 \<le> n3" by auto
  show ?case using a b c by (simp add: d1 d2 d3 upt_join)
qed simp_all

lemma py_getitem_errors:
  "py_getitem x k = Inl e \<Longrightarrow> e = TypeError \<or> e = KeyError \<or> e = IndexError"
  by (cases x) (auto simp: py_index_def Let_def split: option.splits sum.splits if_splits)

lemma py_dict_lookup_hit:
  "\<forall>p \<in> set pre. norm_key (fst p) \<noteq> norm_key k \<Longrightarrow> norm_key k1 = norm_key k \<Longrightarrow>
   py_dict_lookup (pre @ (k1, w) # post) k = Some w"
  by (induction pre) auto

lemma py_dict_lookup_miss:
  "\<forall>p \<in> set kvs. norm_key (fst p) \<noteq> norm_key k \<Longrightarrow> py_dict_lookup kvs k = None"
  by (induction kvs) auto

lemma GetItem_handle_copy:
  assumes "py_getitem x (key st) = Inl e"
  shows "GetItem_handle st n (Item x)
           = Inr (st, snd (deepcopy n (default st)), [Item (fst (deepcopy n (default st)))])"
  using assms py_getitem_errors [OF assms]
  by (auto simp: GetItem_handle_def split_beta)

text \<open>
  Claim C8. END passes through unchanged. For a real item whose lookup succeeds GetItem
  puts \<open>item[key]\<close>, the object the item holds. When the lookup fails (wrong type, missing
  key, bad index) it does not raise and puts a deep copy of the default: equal in value,
  and every list and dictionary in it is a new object (the identities taken from the free
  ones, in order), so it shares none with the default. The lookup itself: an index within
  range from the front or from the end gives that element of a list or tuple, an index out
  of range IndexError; a dictionary gives the value of the first entry whose key equals the
  key, KeyError when there is none, TypeError for an unhashable key; a key that is no
  integer on a sequence, and any subscript of None, an integer or a boolean, TypeError. A
  text gives the one-character text at the index, and a boolean index counts as 0 or 1.
\<close>

theorem GetItem_recovers:
  "GetItem_handle st n END = Inr (st, n, [END])
   \<and> (py_getitem x (key st) = Inr v \<longrightarrow> GetItem_handle st n (Item x) = Inr (st, n, [Item v]))
   \<and> (py_getitem x (key st) = Inl e \<longrightarrow>
        (\<exists>c n'. GetItem_handle st n (Item x) = Inr (st, n', [Item c])
           \<and> erase c = erase (default st) \<and> ids c = [n..<n']
           \<and> ((\<forall>i \<in> set (ids (default st)). i < n) \<longrightarrow>
                set (ids c) \<inter> set (ids (default st)) = {})))
   \<and> (0 \<le> i \<and> i < int (length xs) \<longrightarrow>
        py_getitem (OList a xs) (OInt i) = Inr (xs ! nat i)
        \<and> py_getitem (OTuple xs) (OInt i) = Inr (xs ! nat i))
   \<and> (0 \<le> i \<and> i < int (length s) \<longrightarrow>
        py_getitem (OStr s) (OInt i) = Inr (OStr [s ! nat i]))
   \<and> (- int (length xs) \<le> j \<and> j < 0 \<longrightarrow>
        py_getitem (OList a xs) (OInt j) = Inr (xs ! nat (int (length xs) + j))
        \<and> py_getitem (OTuple xs) (OInt j) = Inr (xs ! nat (int (length xs) + j)))
   \<and> (- int (length s) \<le> j \<and> j < 0 \<longrightarrow>
        py_getitem (OStr s) (OInt j) = Inr (OStr [s ! nat (int (length s) + j)]))
   \<and> (m < - int (length xs) \<or> int (length xs) \<le> m \<longrightarrow>
        py_getitem (OList a xs) (OInt m) = Inl IndexError
        \<and> py_getitem (OTuple xs) (OInt m) = Inl IndexError)
   \<and> (m < - int (length s) \<or> int (length s) \<le> m \<longrightarrow>
        py_getitem (OStr s) (OInt m) = Inl IndexError)
   \<and> py_getitem (OList a xs) (OBool q) = py_getitem (OList a xs) (OInt (if q then 1 else 0))
   \<and> (py_hashable k \<and> norm_key k1 = norm_key k
        \<and> (\<forall>p \<in> set pre. norm_key (fst p) \<noteq> norm_key k) \<longrightarrow>
        py_getitem (ODict a (pre @ (k1, w) # post)) k = Inr w)
   \<and> (py_hashable k \<and> (\<forall>p \<in> set kvs. norm_key (fst p) \<noteq> norm_key k) \<longrightarrow>
        py_getitem (ODict a kvs) k = Inl KeyError)
   \<and> (\<not> py_hashable k \<longrightarrow> py_getitem (ODict a kvs) k = Inl TypeError)
   \<and> (index_of k = None \<longrightarrow>
        py_getitem (OList a xs) k = Inl TypeError \<and> py_getitem (OTuple xs) k = Inl TypeError
        \<and> py_getitem (OStr s) k = Inl TypeError)
   \<and> py_getitem ONone k = Inl TypeError \<and> py_getitem (OInt z) k = Inl TypeError
   \<and> py_getitem (OBool b) k = Inl TypeError"
proof -
  have c1: "GetItem_handle st n END = Inr (st, n, [END])"
    by (simp add: GetItem_handle_def)
  have c2: "py_getitem x (key st) = Inr v \<longrightarrow>
      GetItem_handle st n (Item x) = Inr (st, n, [Item v])"
    by (simp add: GetItem_handle_def)
  have c3: "py_getitem x (key st) = Inl e \<longrightarrow>
        (\<exists>c n'. GetItem_handle st n (Item x) = Inr (st, n', [Item c])
           \<and> erase c = erase (default st) \<and> ids c = [n..<n']
           \<and> ((\<forall>i \<in> set (ids (default st)). i < n) \<longrightarrow>
                set (ids c) \<inter> set (ids (default st)) = {}))"
  proof
    assume f: "py_getitem x (key st) = Inl e"
    let ?c = "fst (deepcopy n (default st))" and ?n = "snd (deepcopy n (default st))"
    have p: "erase ?c = erase (default st)" "ids ?c = [n..<?n]"
      using deepcopy_props(1) [of n "default st"] by simp_all
    have "(\<forall>i \<in> set (ids (default st)). i < n) \<longrightarrow>
            set (ids ?c) \<inter> set (ids (default st)) = {}"
      using p(2) by auto
    with GetItem_handle_copy [OF f, of n] p
    show "\<exists>c n'. GetItem_handle st n (Item x) = Inr (st, n', [Item c])
           \<and> erase c = erase (default st) \<and> ids c = [n..<n']
           \<and> ((\<forall>i \<in> set (ids (default st)). i < n) \<longrightarrow>
                set (ids c) \<inter> set (ids (default st)) = {})"
      by blast
  qed
  have c4: "0 \<le> i \<and> i < int (length xs) \<longrightarrow>
        py_getitem (OList a xs) (OInt i) = Inr (xs ! nat i)
        \<and> py_getitem (OTuple xs) (OInt i) = Inr (xs ! nat i)"
    by (simp add: py_index_def)
  have c5: "- int (length xs) \<le> j \<and> j < 0 \<longrightarrow>
        py_getitem (OList a xs) (OInt j) = Inr (xs ! nat (int (length xs) + j))
        \<and> py_getitem (OTuple xs) (OInt j) = Inr (xs ! nat (int (length xs) + j))"
    by (simp add: py_index_def Let_def add.commute)
  have c6: "m < - int (length xs) \<or> int (length xs) \<le> m \<longrightarrow>
        py_getitem (OList a xs) (OInt m) = Inl IndexError
        \<and> py_getitem (OTuple xs) (OInt m) = Inl IndexError"
    by (auto simp: py_index_def Let_def)
  have c4s: "0 \<le> i \<and> i < int (length s) \<longrightarrow>
        py_getitem (OStr s) (OInt i) = Inr (OStr [s ! nat i])"
    by (simp add: py_index_def)
  have c5s: "- int (length s) \<le> j \<and> j < 0 \<longrightarrow>
        py_getitem (OStr s) (OInt j) = Inr (OStr [s ! nat (int (length s) + j)])"
    by (simp add: py_index_def Let_def add.commute)
  have c6s: "m < - int (length s) \<or> int (length s) \<le> m \<longrightarrow>
        py_getitem (OStr s) (OInt m) = Inl IndexError"
    by (auto simp: py_index_def Let_def)
  have c12: "py_getitem (OList a xs) (OBool q)
        = py_getitem (OList a xs) (OInt (if q then 1 else 0))"
    by simp
  have c7: "py_hashable k \<and> norm_key k1 = norm_key k
        \<and> (\<forall>p \<in> set pre. norm_key (fst p) \<noteq> norm_key k) \<longrightarrow>
        py_getitem (ODict a (pre @ (k1, w) # post)) k = Inr w"
    using py_dict_lookup_hit [of pre k k1 w post] by simp
  have c8: "py_hashable k \<and> (\<forall>p \<in> set kvs. norm_key (fst p) \<noteq> norm_key k) \<longrightarrow>
        py_getitem (ODict a kvs) k = Inl KeyError"
    using py_dict_lookup_miss [of kvs k] by simp
  have c9: "\<not> py_hashable k \<longrightarrow> py_getitem (ODict a kvs) k = Inl TypeError"
    by simp
  have c10: "index_of k = None \<longrightarrow>
        py_getitem (OList a xs) k = Inl TypeError \<and> py_getitem (OTuple xs) k = Inl TypeError
        \<and> py_getitem (OStr s) k = Inl TypeError"
    by simp
  have c11: "py_getitem ONone k = Inl TypeError" "py_getitem (OInt z) k = Inl TypeError"
    "py_getitem (OBool b) k = Inl TypeError"
    by simp_all
  show ?thesis
    by (intro conjI c1 c2 c3 c4 c4s c5 c5s c6 c6s c12 c7 c8 c9 c10 c11)
qed

text \<open>
  Index 1 of \<open>[10, 20]\<close>; the key \<open>'a'\<close> of \<open>{'a': [1]}\<close>, which gives the list held by the
  dictionary itself; the key \<open>True\<close> of \<open>{1: 'x'}\<close>; index -1 of a pair; index 1 of the text
  \<open>'ab'\<close>. Then, with the
  default \<open>[[]]\<close> made of the objects 0 and 1 and the free identities from 10 on:
  subscripting the integer 5, the key \<open>'b'\<close> missing from a dictionary and index 2 of a pair
  each put a copy \<open>[[]]\<close> made of the new objects 10 and 11.
\<close>

theorem GetItem_recovers_witness:
  "GetItem_handle (GetItem_init (OInt 1) ONone) 10 (Item (OList 3 [OInt 10, OInt 20]))
     = Inr (GetItem_init (OInt 1) ONone, 10, [Item (OInt 20)])
   \<and> GetItem_handle (GetItem_init (OStr ''a'') ONone) 10
        (Item (ODict 2 [(OStr ''a'', OList 4 [OInt 1])]))
     = Inr (GetItem_init (OStr ''a'') ONone, 10, [Item (OList 4 [OInt 1])])
   \<and> GetItem_handle (GetItem_init (OBool True) ONone) 10
        (Item (ODict 2 [(OStr ''a'', OInt 0), (OInt 1, OStr ''x'')]))
     = Inr (GetItem_init (OBool True) ONone, 10, [Item (OStr ''x'')])
   \<and> GetItem_handle (GetItem_init (OInt (- 1)) ONone) 10 (Item (OTuple [OInt 1, OInt 2]))
     = Inr (GetItem_init (OInt (- 1)) ONone, 10, [Item (OInt 2)])
   \<and> GetItem_handle (GetItem_init (OInt 1) ONone) 10 (Item (OStr ''ab''))
     = Inr (GetItem_init (OInt 1) ONone, 10, [Item (OStr ''b'')])
   \<and> GetItem_handle (GetItem_init (OInt 0) (OList 0 [OList 1 []])) 10 (Item (OInt 5))
     = Inr (GetItem_init (OInt 0) (OList 0 [OList 1 []]), 12, [Item (OList 10 [OList 11 []])])
   \<and> GetItem_handle (GetItem_init (OStr ''b'') (OList 0 [OList 1 []])) 10
        (Item (ODict 2 [(OStr ''a'', OInt 1)]))
     = Inr (GetItem_init (OStr ''b'') (OList 0 [OList 1 []]), 12,
            [Item (OList 10 [OList 11 []])])
   \<and> GetItem_handle (GetItem_init (OInt 2) (OList 0 [OList 1 []])) 10
        (Item (OTuple [OInt 1, OInt 2]))
     = Inr (GetItem_init (OInt 2) (OList 0 [OList 1 []]), 12, [Item (OList 10 [OList 11 []])])
   \<and> GetItem_handle (GetItem_init (OList 7 []) (OList 0 [OList 1 []])) 10
        (Item (ODict 2 [(OStr ''a'', OInt 1)]))
     = Inr (GetItem_init (OList 7 []) (OList 0 [OList 1 []]), 12,
            [Item (OList 10 [OList 11 []])])"
proof -
  note th = GetItem_recovers [where n = 10 and a = 2 and s = "''ab''" and z = 5 and b = True
      and q = True]
  have w1: "GetItem_handle (GetItem_init (OInt 1) ONone) 10 (Item (OList 3 [OInt 10, OInt 20]))
     = Inr (GetItem_init (OInt 1) ONone, 10, [Item (OInt 20)])"
    using th [where st = "GetItem_init (OInt 1) ONone" and x = "OList 3 [OInt 10, OInt 20]"
        and v = "OInt 20" and e = TypeError and i = 1 and xs = "[OInt 10, OInt 20]"
        and j = "- 1" and m = 2 and k = "OStr ''a''" and ?k1.0 = "OStr ''a''"
        and pre = "[]" and w = "OList 4 [OInt 1]" and post = "[]" and kvs = "[]"]
    by (simp add: GetItem_init_def py_index_def)
  have w2: "GetItem_handle (GetItem_init (OStr ''a'') ONone) 10
        (Item (ODict 2 [(OStr ''a'', OList 4 [OInt 1])]))
     = Inr (GetItem_init (OStr ''a'') ONone, 10, [Item (OList 4 [OInt 1])])"
    using th [where st = "GetItem_init (OStr ''a'') ONone"
        and x = "ODict 2 [(OStr ''a'', OList 4 [OInt 1])]"
        and v = "OList 4 [OInt 1]" and e = TypeError and i = 1 and xs = "[OInt 10, OInt 20]"
        and j = "- 1" and m = 2 and k = "OStr ''a''" and ?k1.0 = "OStr ''a''"
        and pre = "[]" and w = "OList 4 [OInt 1]" and post = "[]" and kvs = "[]"]
    by (simp add: GetItem_init_def)
  have w3: "GetItem_handle (GetItem_init (OBool True) ONone) 10
        (Item (ODict 2 [(OStr ''a'', OInt 0), (OInt 1, OStr ''x'')]))
     = Inr (GetItem_init (OBool True) ONone, 10, [Item (OStr ''x'')])"
    using th [where st = "GetItem_init (OBool True) ONone"
        and x = "ODict 2 [(OStr ''a'', OInt 0), (OInt 1, OStr ''x'')]"
        and v = "OStr ''x''" and e = TypeError and i = 1 and xs = "[OInt 10, OInt 20]"
        and j = "- 1" and m = 2 and k = "OBool True" and ?k1.0 = "OInt 1"
        and pre = "[(OStr ''a'', OInt 0)]" and w = "OStr ''x''" and post = "[]"
        and kvs = "[]"]
    by (simp add: GetItem_init_def)
  have w4: "GetItem_handle (GetItem_init (OInt (- 1)) ONone) 10 (Item (OTuple [OInt 1, OInt 2]))
     = Inr (GetItem_init (OInt (- 1)) ONone, 10, [Item (OInt 2)])"
    using th [where st = "GetItem_init (OInt (- 1)) ONone" and x = "OTuple [OInt 1, OInt 2]"
        and v = "OInt 2" and e = TypeError and i = 1 and xs = "[OInt 1, OInt 2]"
        and j = "- 1" and m = 2 and k = "OStr ''a''" and ?k1.0 = "OStr ''a''"
        and pre = "[]" and w = "OList 4 [OInt 1]" and post = "[]" and kvs = "[]"]
    by (simp add: GetItem_init_def py_index_def)
  have w9: "GetItem_handle (GetItem_init (OInt 1) ONone) 10 (Item (OStr ''ab''))
     = Inr (GetItem_init (OInt 1) ONone, 10, [Item (OStr ''b'')])"
    using th [where st = "GetItem_init (OInt 1) ONone" and x = "OStr ''ab''"
        and v = "OStr ''b''" and e = TypeError and i = 1 and xs = "[OInt 1, OInt 2]"
        and j = "- 1" and m = 2 and k = "OStr ''a''" and ?k1.0 = "OStr ''a''"
        and pre = "[]" and w = "OList 4 [OInt 1]" and post = "[]" and kvs = "[]"]
    by (simp add: GetItem_init_def py_index_def)
  have w5: "GetItem_handle (GetItem_init (OInt 0) (OList 0 [OList 1 []])) 10 (Item (OInt 5))
     = Inr (GetItem_init (OInt 0) (OList 0 [OList 1 []]), 12, [Item (OList 10 [OList 11 []])])"
    using th [where st = "GetItem_init (OInt 0) (OList 0 [OList 1 []])" and x = "OInt 5"
        and v = ONone and e = TypeError and i = 1 and xs = "[OInt 1, OInt 2]"
        and j = "- 1" and m = 2 and k = "OList 7 []" and ?k1.0 = "OStr ''a''"
        and pre = "[]" and w = "OList 4 [OInt 1]" and post = "[]" and kvs = "[]"]
    by (simp add: GetItem_init_def GetItem_handle_def)
  have w6: "GetItem_handle (GetItem_init (OStr ''b'') (OList 0 [OList 1 []])) 10
        (Item (ODict 2 [(OStr ''a'', OInt 1)]))
     = Inr (GetItem_init (OStr ''b'') (OList 0 [OList 1 []]), 12,
            [Item (OList 10 [OList 11 []])])"
    using th [where st = "GetItem_init (OStr ''b'') (OList 0 [OList 1 []])"
        and x = "ODict 2 [(OStr ''a'', OInt 1)]"
        and v = ONone and e = KeyError and i = 1 and xs = "[OInt 1, OInt 2]"
        and j = "- 1" and m = 2 and k = "OStr ''b''" and ?k1.0 = "OStr ''b''"
        and pre = "[]" and w = "OList 4 [OInt 1]" and post = "[]"
        and kvs = "[(OStr ''a'', OInt 1)]"]
    by (simp add: GetItem_init_def GetItem_handle_def)
  have w7: "GetItem_handle (GetItem_init (OInt 2) (OList 0 [OList 1 []])) 10
        (Item (OTuple [OInt 1, OInt 2]))
     = Inr (GetItem_init (OInt 2) (OList 0 [OList 1 []]), 12, [Item (OList 10 [OList 11 []])])"
    using th [where st = "GetItem_init (OInt 2) (OList 0 [OList 1 []])"
        and x = "OTuple [OInt 1, OInt 2]"
        and v = ONone and e = IndexError and i = 1 and xs = "[OInt 1, OInt 2]"
        and j = "- 1" and m = 2 and k = "OStr ''b''" and ?k1.0 = "OStr ''b''"
        and pre = "[]" and w = "OList 4 [OInt 1]" and post = "[]"
        and kvs = "[(OStr ''a'', OInt 1)]"]
    by (simp add: GetItem_init_def GetItem_handle_def py_index_def)
  have w8: "GetItem_handle (GetItem_init (OList 7 []) (OList 0 [OList 1 []])) 10
        (Item (ODict 2 [(OStr ''a'', OInt 1)]))
     = Inr (GetItem_init (OList 7 []) (OList 0 [OList 1 []]), 12,
            [Item (OList 10 [OList 11 []])])"
    using th [where st = "GetItem_init (OList 7 []) (OList 0 [OList 1 []])"
        and x = "ODict 2 [(OStr ''a'', OInt 1)]"
        and v = ONone and e = TypeError and i = 1 and xs = "[OInt 1, OInt 2]"
        and j = "- 1" and m = 2 and k = "OList 7 []" and ?k1.0 = "OStr ''b''"
        and pre = "[]" and w = "OList 4 [OInt 1]" and post = "[]"
        and kvs = "[(OStr ''a'', OInt 1)]"]
    by (simp add: GetItem_init_def GetItem_handle_def)
  show ?thesis by (intro conjI w1 w2 w3 w4 w9 w5 w6 w7 w8)
qed

subsection \<open>Group\<close>

lemma set_update_subset: "set (AList.update k v gs) \<subseteq> insert (k, v) (set gs)"
  by (induction gs) auto

lemma set_delete_subset: "set (AList.delete k gs) \<subseteq> {p \<in> set gs. fst p \<noteq> k}"
  by (auto simp: AList.delete_eq)

lemma notin_delete: "(k, b) \<notin> set (AList.delete k gs)"
  by (auto simp: AList.delete_eq)

lemma Group_handle_inv:
  assumes h: "Group_handle st d = Inr (st', out)"
    and inv: "\<forall>p \<in> set (groups st).
                snd p \<noteq> [] \<and> pynum_less (Num (int (length (snd p)))) (group_size st)"
  shows "(\<forall>p \<in> set (groups st').
            snd p \<noteq> [] \<and> pynum_less (Num (int (length (snd p)))) (group_size st'))
         \<and> group_size st' = group_size st"
proof (cases d)
  case END
  with h inv show ?thesis
    by (auto simp: Group_handle_def split: if_splits)
next
  case (Item x)
  with h obtain k where k: "key_fn st x = Inr k"
    by (auto simp: Group_handle_def split: sum.splits)
  let ?group = "(case map_of (groups st) k of Some g \<Rightarrow> g | None \<Rightarrow> []) @ [x]"
  let ?gs = "AList.update k ?group (groups st)"
  show ?thesis
  proof (cases "pynum_less (Num (int (length ?group))) (group_size st)")
    case True
    with h Item k have st': "st' = st\<lparr>groups := ?gs\<rparr>"
      by (simp add: Group_handle_def Let_def)
    have "\<forall>p \<in> set ?gs.
            snd p \<noteq> [] \<and> pynum_less (Num (int (length (snd p)))) (group_size st)"
      using set_update_subset [of k ?group "groups st"] inv True by auto
    then show ?thesis by (simp add: st')
  next
    case False
    with h Item k have st': "st' = st\<lparr>groups := AList.delete k ?gs\<rparr>"
      by (simp add: Group_handle_def Let_def)
    have "\<forall>p \<in> set (AList.delete k ?gs).
            snd p \<noteq> [] \<and> pynum_less (Num (int (length (snd p)))) (group_size st)"
      using set_delete_subset [of k ?gs] set_update_subset [of k ?group "groups st"] inv
      by fastforce
    then show ?thesis by (simp add: st')
  qed
qed

lemma Group_run_inv:
  assumes "run_handle Group_handle st ds = Inr (st', out)"
    and "\<forall>p \<in> set (groups st).
           snd p \<noteq> [] \<and> pynum_less (Num (int (length (snd p)))) (group_size st)"
  shows "\<forall>p \<in> set (groups st').
           snd p \<noteq> [] \<and> pynum_less (Num (int (length (snd p)))) (group_size st')"
  using assms
proof (induction ds arbitrary: st out)
  case Nil
  then show ?case by simp
next
  case (Cons d ds)
  from Cons.prems(1) obtain st1 out1 out2 where
    h: "Group_handle st d = Inr (st1, out1)"
    and r: "run_handle Group_handle st1 ds = Inr (st', out2)"
    by (auto split: sum.splits)
  from Group_handle_inv [OF h Cons.prems(2)]
  have "\<forall>p \<in> set (groups st1).
          snd p \<noteq> [] \<and> pynum_less (Num (int (length (snd p)))) (group_size st1)"
    by blast
  from Cons.IH [OF r this] show ?case .
qed

lemma Group_handle_item:
  assumes "Group_handle st (Item x) = Inr (st', out')" and "key_fn st x = Inr k"
  shows "(let bucket = (case map_of (groups st) k of Some g \<Rightarrow> g | None \<Rightarrow> []) @ [x] in
          if pynum_less (Num (int (length bucket))) (group_size st)
          then out' = [] \<and> map_of (groups st') k = Some bucket
          else out' = [(k, bucket)] \<and> k \<notin> fst ` set (groups st'))"
  using assms
  by (auto simp: Group_handle_def Let_def AList.update_conv' notin_delete
      split: if_splits)

text \<open>
  Claim C9. After every completed activation of \<open>Group.handle\<close> (any sequence of them from
  the constructed stage), every bucket left in the table is non-empty and has strictly
  fewer than \<open>group_size\<close> items. In the next activation on an item, a bucket that reaches
  \<open>group_size\<close> is put as \<open>(key, bucket)\<close> and its key is gone from the table; otherwise
  nothing is put and the table holds the longer bucket. The activation on END with
  \<open>keep_rest\<close> puts the table and empties it.
\<close>

theorem Group_bucket_invariant:
  assumes init: "Group_init kf n keep = Inr st0"
    and run: "run_handle Group_handle st0 ds = Inr (st, out)"
  shows "(\<forall>(k, b) \<in> set (groups st).
            b \<noteq> [] \<and> pynum_less (Num (int (length b))) (group_size st))
         \<and> (\<forall>x k st' out'.
              Group_handle st (Item x) = Inr (st', out') \<and> key_fn st x = Inr k \<longrightarrow>
              (let bucket = (case map_of (groups st) k of Some g \<Rightarrow> g | None \<Rightarrow> []) @ [x] in
               if pynum_less (Num (int (length bucket))) (group_size st)
               then out' = [] \<and> map_of (groups st') k = Some bucket
               else out' = [(k, bucket)] \<and> k \<notin> fst ` set (groups st')))
         \<and> (keep_rest st \<longrightarrow> Group_handle st END = Inr (st\<lparr>groups := []\<rparr>, groups st))"
proof -
  from init have "groups st0 = []"
    by (auto simp: Group_init_def split: if_splits)
  then have "\<forall>p \<in> set (groups st0).
           snd p \<noteq> [] \<and> pynum_less (Num (int (length (snd p)))) (group_size st0)"
    by simp
  from Group_run_inv [OF run this]
  have a: "\<forall>(k, b) \<in> set (groups st).
            b \<noteq> [] \<and> pynum_less (Num (int (length b))) (group_size st)"
    by auto
  have b: "\<forall>x k st' out'.
              Group_handle st (Item x) = Inr (st', out') \<and> key_fn st x = Inr k \<longrightarrow>
              (let bucket = (case map_of (groups st) k of Some g \<Rightarrow> g | None \<Rightarrow> []) @ [x] in
               if pynum_less (Num (int (length bucket))) (group_size st)
               then out' = [] \<and> map_of (groups st') k = Some bucket
               else out' = [(k, bucket)] \<and> k \<notin> fst ` set (groups st'))"
    by (intro allI impI, elim conjE, rule Group_handle_item, assumption+)
  have c: "keep_rest st \<longrightarrow> Group_handle st END = Inr (st\<lparr>groups := []\<rparr>, groups st)"
    by (simp add: Group_handle_def)
  show ?thesis by (intro conjI a b c)
qed

text \<open>
  The spec's example: keys \<open>x mod 2\<close>, size 2, on 1, 2, 3, 4, 5 the buckets (1, [1, 3]) and
  (0, [2, 4]) are put as they fill, (1, [5]) is left and END flushes it.
\<close>

theorem Group_bucket_invariant_witness:
  "Group_init parity (Num 2) True
     = Inr \<lparr>key_fn = parity, group_size = Num 2, keep_rest = True, groups = []\<rparr>
   \<and> run_handle Group_handle
        \<lparr>key_fn = parity, group_size = Num 2, keep_rest = True, groups = []\<rparr>
        [Item 1, Item 2, Item 3, Item 4, Item 5]
     = Inr (\<lparr>key_fn = parity, group_size = Num 2, keep_rest = True, groups = [(1, [5])]\<rparr>,
            [(1, [1, 3]), (0, [2, 4])])
   \<and> Group_handle
        \<lparr>key_fn = parity, group_size = Num 2, keep_rest = True, groups = [(1, [5])]\<rparr> END
     = Inr (\<lparr>key_fn = parity, group_size = Num 2, keep_rest = True, groups = []\<rparr>, [(1, [5])])"
  using Group_bucket_invariant [of parity "Num 2" True
      "\<lparr>key_fn = parity, group_size = Num 2, keep_rest = True, groups = []\<rparr>"
      "[Item 1, Item 2, Item 3, Item 4, Item 5]"
      "\<lparr>key_fn = parity, group_size = Num 2, keep_rest = True, groups = [(1, [5])]\<rparr>"
      "[(1, [1, 3]), (0, [2, 4])]"]
  by (simp add: Group_init_def Group_handle_def parity_def)

subsection \<open>Until\<close>

lemma Until_stopped:
  "stop st \<Longrightarrow> run_handle Until_activation st ds = Inr (st, replicate (length ds) ([], RetNone))"
proof (induction ds)
  case Nil
  show ?case by simp
next
  case (Cons d ds)
  have "Until_activation st d = Inr (st, [([], RetNone)])"
    using Cons.prems by (cases d) (simp_all add: Until_activation_def Until_handle_def)
  with Cons show ?case by simp
qed

text \<open>
  Claim C10. Once the stage has stopped, or on the item that satisfies the stop condition,
  the activation puts nothing, returns \<open>None\<close> and leaves the stage stopped; from then on
  every activation, on a real item or on END, puts nothing (END itself included) and
  returns \<open>None\<close>, so the stage never terminates itself.
\<close>

theorem Until_silent_after_match:
  assumes "stop st \<or> stop_condition (until_by st) x = Inr True"
  shows "\<exists>st1. Until_handle st (Item x) = Inr (st1, [], RetNone) \<and> stop st1
           \<and> Until_handle st1 END = Inr (st1, [], RetNone)
           \<and> (\<forall>ds. run_handle Until_activation st1 ds
                      = Inr (st1, replicate (length ds) ([], RetNone)))"
proof (cases "stop st")
  case True
  then have "Until_handle st (Item x) = Inr (st, [], RetNone)"
    by (simp add: Until_handle_def)
  moreover have "Until_handle st END = Inr (st, [], RetNone)"
    by (simp add: Until_handle_def)
  ultimately show ?thesis using True Until_stopped [OF True] by blast
next
  case False
  with assms have c: "stop_condition (until_by st) x = Inr True" by simp
  let ?st1 = "st\<lparr>stop := True\<rparr>"
  have s: "stop ?st1" by simp
  have "Until_handle st (Item x) = Inr (?st1, [], RetNone)"
    using False c by (simp add: Until_handle_def)
  moreover have "Until_handle ?st1 END = Inr (?st1, [], RetNone)"
    by (simp add: Until_handle_def)
  ultimately show ?thesis using s Until_stopped [OF s] by blast
qed

text \<open>Until the marker 3, on the stream 1, 2, 3, 4, 5: the items 1 and 2 are put, nothing else.\<close>

theorem Until_silent_after_match_witness:
  "stop_condition (until_by (Until_init (Marker (3::int)))) 3 = Inr True
   \<and> Until_handle (Until_init (Marker (3::int))) (Item 3)
       = Inr (\<lparr>until_by = Marker 3, stop = True\<rparr>, [], RetNone)
   \<and> run_handle Until_activation \<lparr>until_by = Marker (3::int), stop = True\<rparr> [Item 4, Item 5, END]
       = Inr (\<lparr>until_by = Marker 3, stop = True\<rparr>,
              [([], RetNone), ([], RetNone), ([], RetNone)])
   \<and> BaseTask_handle_stream Until_activation (Until_init (Marker (3::int))) [1, 2, 3, 4, 5]
       = Inr (\<lparr>until_by = Marker 3, stop = True\<rparr>,
              [([Item 1], RetNone), ([Item 2], RetNone), ([], RetNone), ([], RetNone),
               ([], RetNone), ([], RetNone)])"
  using Until_silent_after_match [of "Until_init (Marker (3::int))" 3]
  by (simp add: Until_init_def stop_condition_def Until_handle_def Until_activation_def
      BaseTask_handle_stream_def)

subsection \<open>Mix\<close>

lemma raise_first_skip:
  "set pre \<subseteq> {Returned, Pending} \<Longrightarrow>
   raise_first (filter (\<lambda>t. t \<noteq> Pending) (pre @ ts)) = raise_first (filter (\<lambda>t. t \<noteq> Pending) ts)"
  by (induction pre) auto

lemma raise_first_Returned: "set ts \<subseteq> {Returned} \<Longrightarrow> raise_first ts = None"
  by (induction ts) auto

lemma no_pending:
  "Pending \<notin> set ts \<Longrightarrow>
   filter (\<lambda>t. t \<noteq> Pending) ts = ts \<and> filter (\<lambda>t. t = Pending) ts = []"
  by (induction ts) auto

lemma list_ex_is_Raised: "list_ex is_Raised (pre @ Raised e # rest)"
  by (simp add: list_ex_iff)

text \<open>
  Claim C1, as amended. With no source, or a constant channel among the sources, Mix raises
  ValueError and starts no drainer. Otherwise, when the wait returns and a drainer that is
  done has raised or was cancelled, Mix raises for the first such drainer in the iteration
  order of the done set (its exception, or CancelledError for a cancelled one) and
  activates no handler on END; the drainers still pending are left pending, not cancelled.
  When every drainer returned, Mix activates the handler once on END, which with no
  interceptor puts one END. While a drainer is pending and none has raised, Mix is still
  waiting.
\<close>

theorem Mix_failure:
  "(list_ex is_constant srcs \<or> srcs = [] \<longrightarrow>
      Mix_handle_stream (handler :: 'a handler) srcs = (Some (Inl ValueError), []))
   \<and> (\<not> list_ex is_constant srcs \<and> map drainer srcs = pre @ Raised e # rest
        \<and> set pre \<subseteq> {Returned, Pending} \<longrightarrow>
      Mix_handle_stream handler srcs
        = (Some (Inl e), filter (\<lambda>t. t = Pending) (map drainer srcs)))
   \<and> (\<not> list_ex is_constant srcs \<and> map drainer srcs = pre @ Cancelled # rest
        \<and> set pre \<subseteq> {Returned, Pending}
        \<and> (Pending \<notin> set (pre @ rest) \<or> list_ex is_Raised rest) \<longrightarrow>
      Mix_handle_stream handler srcs
        = (Some (Inl CancelledError), filter (\<lambda>t. t = Pending) (map drainer srcs)))
   \<and> (\<not> list_ex is_constant srcs \<and> srcs \<noteq> [] \<and> set (map drainer srcs) \<subseteq> {Returned} \<longrightarrow>
      Mix_handle_stream handler srcs = (Some (Inr (handler END)), [])
      \<and> Mix_handle_stream (BaseTask_handle :: 'a handler) srcs = (Some (Inr [END]), []))
   \<and> (\<not> list_ex is_constant srcs \<and> Pending \<in> set (map drainer srcs)
        \<and> \<not> list_ex is_Raised (map drainer srcs) \<longrightarrow>
      fst (Mix_handle_stream handler srcs) = None)"
proof -
  have a: "list_ex is_constant srcs \<or> srcs = [] \<longrightarrow>
      Mix_handle_stream handler srcs = (Some (Inl ValueError), [])"
    by (auto simp: Mix_handle_stream_def asyncio_wait_def)
  have b: "\<not> list_ex is_constant srcs \<and> map drainer srcs = pre @ Raised e # rest
        \<and> set pre \<subseteq> {Returned, Pending} \<longrightarrow>
      Mix_handle_stream handler srcs
        = (Some (Inl e), filter (\<lambda>t. t = Pending) (map drainer srcs))"
  proof (intro impI, elim conjE)
    assume nc: "\<not> list_ex is_constant srcs"
      and ts: "map drainer srcs = pre @ Raised e # rest"
      and pre: "set pre \<subseteq> {Returned, Pending}"
    have w: "asyncio_wait (map drainer srcs)
        = Inr (Some (filter (\<lambda>t. t \<noteq> Pending) (map drainer srcs),
                     filter (\<lambda>t. t = Pending) (map drainer srcs)))"
      unfolding ts asyncio_wait_def using list_ex_is_Raised [of pre e rest] by simp
    have r: "raise_first (filter (\<lambda>t. t \<noteq> Pending) (map drainer srcs)) = Some e"
      unfolding ts using raise_first_skip [OF pre, of "Raised e # rest"] by simp
    show "Mix_handle_stream handler srcs
        = (Some (Inl e), filter (\<lambda>t. t = Pending) (map drainer srcs))"
      using nc w r by (simp add: Mix_handle_stream_def)
  qed
  have c: "\<not> list_ex is_constant srcs \<and> map drainer srcs = pre @ Cancelled # rest
        \<and> set pre \<subseteq> {Returned, Pending}
        \<and> (Pending \<notin> set (pre @ rest) \<or> list_ex is_Raised rest) \<longrightarrow>
      Mix_handle_stream handler srcs
        = (Some (Inl CancelledError), filter (\<lambda>t. t = Pending) (map drainer srcs))"
  proof (intro impI, elim conjE)
    assume nc: "\<not> list_ex is_constant srcs"
      and ts: "map drainer srcs = pre @ Cancelled # rest"
      and pre: "set pre \<subseteq> {Returned, Pending}"
      and ret: "Pending \<notin> set (pre @ rest) \<or> list_ex is_Raised rest"
    have "Pending \<notin> set (pre @ Cancelled # rest) \<or> list_ex is_Raised (pre @ Cancelled # rest)"
      using ret by (auto simp: list_ex_iff)
    then have w: "asyncio_wait (map drainer srcs)
        = Inr (Some (filter (\<lambda>t. t \<noteq> Pending) (map drainer srcs),
                     filter (\<lambda>t. t = Pending) (map drainer srcs)))"
      unfolding ts asyncio_wait_def by simp
    have r: "raise_first (filter (\<lambda>t. t \<noteq> Pending) (map drainer srcs)) = Some CancelledError"
      unfolding ts using raise_first_skip [OF pre, of "Cancelled # rest"] by simp
    show "Mix_handle_stream handler srcs
        = (Some (Inl CancelledError), filter (\<lambda>t. t = Pending) (map drainer srcs))"
      using nc w r by (simp add: Mix_handle_stream_def)
  qed
  have d: "\<not> list_ex is_constant srcs \<and> srcs \<noteq> [] \<and> set (map drainer srcs) \<subseteq> {Returned} \<longrightarrow>
      Mix_handle_stream handler srcs = (Some (Inr (handler END)), [])
      \<and> Mix_handle_stream (BaseTask_handle :: 'a handler) srcs = (Some (Inr [END]), [])"
  proof (intro impI, elim conjE)
    assume nc: "\<not> list_ex is_constant srcs" and ne: "srcs \<noteq> []"
      and all: "set (map drainer srcs) \<subseteq> {Returned}"
    from all have np: "Pending \<notin> set (map drainer srcs)" by auto
    then have f1: "filter (\<lambda>t. t \<noteq> Pending) (map drainer srcs) = map drainer srcs"
      and f2: "filter (\<lambda>t. t = Pending) (map drainer srcs) = []"
      using no_pending [of "map drainer srcs"] by blast+
    have w: "asyncio_wait (map drainer srcs) = Inr (Some (map drainer srcs, []))"
      using ne np f1 f2 by (simp add: asyncio_wait_def)
    show "Mix_handle_stream handler srcs = (Some (Inr (handler END)), [])
      \<and> Mix_handle_stream (BaseTask_handle :: 'a handler) srcs = (Some (Inr [END]), [])"
      using nc w raise_first_Returned [OF all]
      by (simp add: Mix_handle_stream_def BaseTask_handle_def)
  qed
  have e: "\<not> list_ex is_constant srcs \<and> Pending \<in> set (map drainer srcs)
        \<and> \<not> list_ex is_Raised (map drainer srcs) \<longrightarrow>
      fst (Mix_handle_stream handler srcs) = None"
    by (auto simp: Mix_handle_stream_def asyncio_wait_def)
  show ?thesis by (intro conjI a b c d e)
qed

text \<open>
  No source; a constant channel; a drainer that raised after one that returned, with a
  third one pending; a cancelled drainer before one that raised; two drainers that
  returned; a drainer pending and none that raised.
\<close>

theorem Mix_failure_witness:
  "Mix_handle_stream (BaseTask_handle :: int handler) [] = (Some (Inl ValueError), [])
   \<and> Mix_handle_stream (BaseTask_handle :: int handler)
        [\<lparr>is_constant = False, drainer = Returned\<rparr>, \<lparr>is_constant = True, drainer = Pending\<rparr>]
      = (Some (Inl ValueError), [])
   \<and> Mix_handle_stream (BaseTask_handle :: int handler)
        [\<lparr>is_constant = False, drainer = Returned\<rparr>,
         \<lparr>is_constant = False, drainer = Raised (UserError 7)\<rparr>,
         \<lparr>is_constant = False, drainer = Pending\<rparr>]
      = (Some (Inl (UserError 7)), [Pending])
   \<and> Mix_handle_stream (BaseTask_handle :: int handler)
        [\<lparr>is_constant = False, drainer = Cancelled\<rparr>,
         \<lparr>is_constant = False, drainer = Raised (UserError 7)\<rparr>]
      = (Some (Inl CancelledError), [])
   \<and> Mix_handle_stream (BaseTask_handle :: int handler)
        [\<lparr>is_constant = False, drainer = Returned\<rparr>, \<lparr>is_constant = False, drainer = Returned\<rparr>]
      = (Some (Inr [END]), [])
   \<and> fst (Mix_handle_stream (BaseTask_handle :: int handler)
        [\<lparr>is_constant = False, drainer = Returned\<rparr>, \<lparr>is_constant = False, drainer = Pending\<rparr>])
      = None"
proof -
  note th = Mix_failure [where handler = "BaseTask_handle :: int handler"]
  have a: "Mix_handle_stream (BaseTask_handle :: int handler) [] = (Some (Inl ValueError), [])"
    using th [where srcs = "[]" and pre = "[]" and rest = "[]" and e = ValueError] by simp
  have b: "Mix_handle_stream (BaseTask_handle :: int handler)
        [\<lparr>is_constant = False, drainer = Returned\<rparr>, \<lparr>is_constant = True, drainer = Pending\<rparr>]
      = (Some (Inl ValueError), [])"
    using th [where srcs = "[\<lparr>is_constant = False, drainer = Returned\<rparr>,
        \<lparr>is_constant = True, drainer = Pending\<rparr>]" and pre = "[]" and rest = "[]"
        and e = ValueError]
    by simp
  have c: "Mix_handle_stream (BaseTask_handle :: int handler)
        [\<lparr>is_constant = False, drainer = Returned\<rparr>,
         \<lparr>is_constant = False, drainer = Raised (UserError 7)\<rparr>,
         \<lparr>is_constant = False, drainer = Pending\<rparr>]
      = (Some (Inl (UserError 7)), [Pending])"
    using th [where srcs = "[\<lparr>is_constant = False, drainer = Returned\<rparr>,
        \<lparr>is_constant = False, drainer = Raised (UserError 7)\<rparr>,
        \<lparr>is_constant = False, drainer = Pending\<rparr>]" and pre = "[Returned]"
        and rest = "[Pending]" and e = "UserError 7"]
    by simp
  have d: "Mix_handle_stream (BaseTask_handle :: int handler)
        [\<lparr>is_constant = False, drainer = Cancelled\<rparr>,
         \<lparr>is_constant = False, drainer = Raised (UserError 7)\<rparr>]
      = (Some (Inl CancelledError), [])"
    using th [where srcs = "[\<lparr>is_constant = False, drainer = Cancelled\<rparr>,
        \<lparr>is_constant = False, drainer = Raised (UserError 7)\<rparr>]" and pre = "[]"
        and rest = "[Raised (UserError 7)]" and e = ValueError]
    by simp
  have e: "Mix_handle_stream (BaseTask_handle :: int handler)
        [\<lparr>is_constant = False, drainer = Returned\<rparr>, \<lparr>is_constant = False, drainer = Returned\<rparr>]
      = (Some (Inr [END]), [])"
    using th [where srcs = "[\<lparr>is_constant = False, drainer = Returned\<rparr>,
        \<lparr>is_constant = False, drainer = Returned\<rparr>]" and pre = "[]" and rest = "[]"
        and e = ValueError]
    by (simp add: BaseTask_handle_def)
  have f: "fst (Mix_handle_stream (BaseTask_handle :: int handler)
        [\<lparr>is_constant = False, drainer = Returned\<rparr>, \<lparr>is_constant = False, drainer = Pending\<rparr>])
      = None"
    using th [where srcs = "[\<lparr>is_constant = False, drainer = Returned\<rparr>,
        \<lparr>is_constant = False, drainer = Pending\<rparr>]" and pre = "[]" and rest = "[]"
        and e = ValueError]
    by simp
  show ?thesis by (intro conjI a b c d e f)
qed

text \<open>
  Claim C1 as stated fails: one drainer raised, the other is pending, and when
  \<open>handle_stream\<close> is left with that exception the other drainer is still pending, not
  cancelled.
\<close>

theorem Mix_pending_not_cancelled_counterexample:
  "Mix_handle_stream (BaseTask_handle :: int handler)
     [\<lparr>is_constant = False, drainer = Raised (UserError 7)\<rparr>,
      \<lparr>is_constant = False, drainer = Pending\<rparr>]
   = (Some (Inl (UserError 7)), [Pending])
   \<and> snd (Mix_handle_stream (BaseTask_handle :: int handler)
       [\<lparr>is_constant = False, drainer = Raised (UserError 7)\<rparr>,
        \<lparr>is_constant = False, drainer = Pending\<rparr>])
     \<noteq> [Cancelled]"
  by (simp add: Mix_handle_stream_def asyncio_wait_def)

end
